theory Spec2Isabelle
  imports Complex_Main "HOL-Library.Word" "HOL-Library.Sublist"
begin

section \<open>JavaScript values\<close>

text \<open>
  A JavaScript string is a sequence of UTF-16 code units. String literals of the source are
  written as Isabelle strings and converted with \<open>js\<close>; the source's literals outside ASCII
  are written as code units.
\<close>

type_synonym jschar = "16 word"
type_synonym jsstring = "jschar list"

definition js :: "string \<Rightarrow> jsstring" where
  "js s = map of_char s"

text \<open>
  The values the program handles come out of \<open>JSON.parse\<close> (request bodies, upstream
  results) or are \<open>undefined\<close>. A finite double is a rational number; \<open>-0\<close> and \<open>0\<close>
  are identified, which changes neither truthiness nor the printed form. An object is the
  list of its own properties.
\<close>

datatype jsval =
    Undefined
  | JNull
  | JBool bool
  | JNum rat
  | JStr jsstring
  | JArr "jsval list"
  | JObj "(jsstring \<times> jsval) list"

text \<open>\<open>!v\<close> is \<open>\<not> truthy v\<close>; \<open>a || b\<close> is \<open>a\<close> when \<open>a\<close> is truthy, else \<open>b\<close>.\<close>

fun truthy :: "jsval \<Rightarrow> bool" where
  "truthy Undefined = False"
| "truthy JNull = False"
| "truthy (JBool b) = b"
| "truthy (JNum n) = (n \<noteq> 0)"
| "truthy (JStr s) = (s \<noteq> [])"
| "truthy (JArr xs) = True"
| "truthy (JObj kvs) = True"

definition js_or :: "jsval \<Rightarrow> jsval \<Rightarrow> jsval" where
  "js_or a b = (if truthy a then a else b)"

text \<open>
  A thrown value: \<open>Error m\<close> is built by the program with message \<open>m\<close>; \<open>TypeError site\<close>
  is thrown by the runtime at the named expression, and \<open>Rejected m\<close> is a rejection of a
  runtime promise (\<open>fetch\<close>, \<open>response.json()\<close>) with the runtime's message \<open>m\<close>.
\<close>

datatype exn =
    Error jsstring
  | TypeError jsstring
  | Rejected jsstring

section \<open>Whitespace and \<open>String.prototype.trim\<close>\<close>

text \<open>
  The class \<open>\s\<close> of a regular expression and the characters removed by \<open>trim\<close> are the
  same set: WhiteSpace and LineTerminator of ECMAScript.
\<close>

definition is_space :: "jschar \<Rightarrow> bool" where
  "is_space c \<longleftrightarrow>
     c = 0x0009 \<or> c = 0x000A \<or> c = 0x000B \<or> c = 0x000C \<or> c = 0x000D \<or> c = 0x0020 \<or>
     c = 0x00A0 \<or> c = 0x1680 \<or> (0x2000 \<le> c \<and> c \<le> 0x200A) \<or> c = 0x2028 \<or> c = 0x2029 \<or>
     c = 0x202F \<or> c = 0x205F \<or> c = 0x3000 \<or> c = 0xFEFF"

definition trim :: "jsstring \<Rightarrow> jsstring" where
  "trim s = rev (dropWhile is_space (rev (dropWhile is_space s)))"

section \<open>\<open>text.split(/(\n\n|\n|(?<=[.?!]))\s*/)\<close>\<close>

definition substring :: "jsstring \<Rightarrow> nat \<Rightarrow> nat \<Rightarrow> jsstring" where
  "substring S p q = take (q - p) (drop p S)"

text \<open>The character class \<open>[.?!]\<close>.\<close>

definition is_terminator :: "jschar \<Rightarrow> bool" where
  "is_terminator c \<longleftrightarrow> c = 0x2E \<or> c = 0x3F \<or> c = 0x21"

text \<open>The greedy \<open>\s*\<close> started at index \<open>i\<close>: the index where it stops.\<close>

definition skip_spaces :: "jsstring \<Rightarrow> nat \<Rightarrow> nat" where
  "skip_spaces S i = i + length (takeWhile is_space (drop i S))"

text \<open>
  The sticky match of the separator at index \<open>q\<close>: the captured group and the end index.
  The alternatives of the group are tried in order and \<open>\s*\<close> cannot fail, so the first
  alternative that matches is the one taken. The lookbehind reads the code unit before
  \<open>q\<close> in the whole string.
\<close>

definition sep_match :: "jsstring \<Rightarrow> nat \<Rightarrow> (jsstring \<times> nat) option" where
  "sep_match S q =
     (if substring S q (q + 2) = [0x0A, 0x0A] then Some ([0x0A, 0x0A], skip_spaces S (q + 2))
      else if substring S q (q + 1) = [0x0A] then Some ([0x0A], skip_spaces S (q + 1))
      else if 0 < q \<and> q \<le> length S \<and> is_terminator (S ! (q - 1)) then Some ([], skip_spaces S q)
      else None)"

text \<open>
  The loop of \<open>RegExp.prototype[Symbol.split]\<close> without a limit: \<open>p\<close> is the end of the
  last separator, \<open>q\<close> the index tried next, \<open>A\<close> the array built so far. A match that ends
  at \<open>p\<close> is skipped; otherwise the piece from \<open>p\<close> to \<open>q\<close> and the captured group are
  pushed.
\<close>

function split_loop :: "jsstring \<Rightarrow> nat \<Rightarrow> nat \<Rightarrow> jsstring list \<Rightarrow> jsstring list" where
  "split_loop S p q A =
     (if q < length S then
        (case sep_match S q of
           None \<Rightarrow> split_loop S p (q + 1) A
         | Some (cap, e0) \<Rightarrow>
             if min e0 (length S) = p then split_loop S p (q + 1) A
             else split_loop S (min e0 (length S)) (min e0 (length S)) (A @ [substring S p q, cap]))
      else A @ [substring S p (length S)])"
  by pat_completeness auto
termination
proof (relation "measure (\<lambda>(S, p, q, A). 2 * (length S - q) + (if p = q then 0 else 1))")
  show "wf (measure (\<lambda>(S, p, q, A). 2 * (length S - q) + (if p = q then 0 else 1)))"
    by simp
next
  fix S :: jsstring and p q :: nat and A :: "jsstring list"
  assume "q < length S"
  then show "((S, p, q + 1, A), (S, p, q, A))
      \<in> measure (\<lambda>(S, p, q, A). 2 * (length S - q) + (if p = q then 0 else 1))"
    by auto
next
  fix S :: jsstring and p q :: nat and A :: "jsstring list" and x2 x y
  assume "q < length S"
  then show "((S, p, q + 1, A), (S, p, q, A))
      \<in> measure (\<lambda>(S, p, q, A). 2 * (length S - q) + (if p = q then 0 else 1))"
    by auto
next
  fix S :: jsstring and p q :: nat and A :: "jsstring list" and x2 :: "jsstring \<times> nat"
    and x :: jsstring and y :: nat
  assume q: "q < length S" and m: "sep_match S q = Some x2" and x2: "(x, y) = x2"
    and np: "min y (length S) \<noteq> p"
  from m x2 have "q \<le> y"
    by (auto simp: sep_match_def skip_spaces_def split: if_splits)
  with q np show "((S, min y (length S), min y (length S), A @ [substring S p q, x]), (S, p, q, A))
      \<in> measure (\<lambda>(S, p, q, A). 2 * (length S - q) + (if p = q then 0 else 1))"
    by (auto simp: min_def)
qed

declare split_loop.simps [simp del]

text \<open>For the empty string the result is empty when the separator matches it, else \<open>[""]\<close>.\<close>

definition split :: "jsstring \<Rightarrow> jsstring list" where
  "split S =
     (if S = [] then (case sep_match S 0 of None \<Rightarrow> [S] | Some m \<Rightarrow> [])
      else split_loop S 0 0 [])"

section \<open>\<open>chunkFileContent\<close>\<close>

text \<open>\<open>.filter((s) => s.trim().length > 0)\<close> on the pieces of the split.\<close>

definition sentences :: "jsstring \<Rightarrow> jsstring list" where
  "sentences text = filter (\<lambda>s. length (trim s) > 0) (split text)"

text \<open>The \<open>for\<close> loop over the sentences, with the state \<open>(chunks, currentChunk)\<close>.\<close>

fun chunk_loop :: "nat \<Rightarrow> jsstring list \<Rightarrow> jsstring list \<Rightarrow> jsstring \<Rightarrow> jsstring list \<times> jsstring" where
  "chunk_loop maxChunkSize [] chunks currentChunk = (chunks, currentChunk)"
| "chunk_loop maxChunkSize (sentence # rest) chunks currentChunk =
     (if length currentChunk + length sentence > maxChunkSize \<and> length currentChunk > 0
      then chunk_loop maxChunkSize rest (chunks @ [trim currentChunk]) sentence
      else chunk_loop maxChunkSize rest chunks (currentChunk @ sentence))"

text \<open>
  The body for a string argument: the sentences, the loop, and the last push.
\<close>

definition chunk_text :: "jsstring \<Rightarrow> nat \<Rightarrow> jsstring list" where
  "chunk_text text maxChunkSize =
     (case chunk_loop maxChunkSize (sentences text) [] [] of
        (chunks, currentChunk) \<Rightarrow>
          if length currentChunk > 0 then chunks @ [trim currentChunk] else chunks)"

text \<open>
  \<open>chunkFileContent(text, maxChunkSize = 500)\<close>: an absent second argument is \<open>None\<close>. A
  falsy \<open>text\<close> gives \<open>[]\<close>; a truthy value that is not a string has no \<open>split\<close> method, and
  the call throws.
\<close>

definition chunkFileContent :: "jsval \<Rightarrow> nat option \<Rightarrow> exn + jsstring list" where
  "chunkFileContent text maxChunkSize =
     (if \<not> truthy text then Inr []
      else case text of
        JStr s \<Rightarrow> Inr (chunk_text s (case maxChunkSize of None \<Rightarrow> 500 | Some m \<Rightarrow> m))
      | _ \<Rightarrow> Inl (TypeError (js ''text.split is not a function'')))"

section \<open>Property access and string conversion\<close>

text \<open>
  \<open>v.name\<close> on a value that is neither \<open>null\<close> nor \<open>undefined\<close>, for the names the program
  reads (\<open>fileContent\<close>, \<open>userQuestion\<close>, \<open>candidates\<close>, \<open>content\<close>, \<open>parts\<close>, \<open>text\<close>,
  \<open>error\<close>, \<open>message\<close>, \<open>answer\<close>). None of them is a property of an array, a string, a
  number or a boolean, or of a prototype, so only an object has one. The keys of an object
  are distinct.
\<close>

fun get_prop :: "jsval \<Rightarrow> jsstring \<Rightarrow> jsval" where
  "get_prop (JObj kvs) name = (case map_of kvs name of None \<Rightarrow> Undefined | Some v \<Rightarrow> v)"
| "get_prop v name = Undefined"

text \<open>\<open>v[0]\<close>: the first element of an array, the first code unit of a string, the property \<open>"0"\<close> of an object.\<close>

fun get_index0 :: "jsval \<Rightarrow> jsval" where
  "get_index0 (JArr xs) = (case xs of [] \<Rightarrow> Undefined | x # rest \<Rightarrow> x)"
| "get_index0 (JStr s) = (case s of [] \<Rightarrow> Undefined | c # rest \<Rightarrow> JStr [c])"
| "get_index0 (JObj kvs) = (case map_of kvs (js ''0'') of None \<Rightarrow> Undefined | Some v \<Rightarrow> v)"
| "get_index0 v = Undefined"

definition nullish :: "jsval \<Rightarrow> bool" where
  "nullish v \<longleftrightarrow> v = Undefined \<or> v = JNull"

text \<open>\<open>v?.name\<close> and \<open>v?.[0]\<close>.\<close>

definition opt_prop :: "jsval \<Rightarrow> jsstring \<Rightarrow> jsval" where
  "opt_prop v name = (if nullish v then Undefined else get_prop v name)"

definition opt_index0 :: "jsval \<Rightarrow> jsval" where
  "opt_index0 v = (if nullish v then Undefined else get_index0 v)"

text \<open>
  What the language leaves to the engine: the decimal form of a number, and the message of
  the \<open>TypeError\<close> for reading a property of \<open>null\<close> or \<open>undefined\<close>.
\<close>

record runtime =
  num_str :: "rat \<Rightarrow> jsstring"
  null_read_msg :: "jsstring \<Rightarrow> jsstring"

text \<open>\<open>v.name\<close> where \<open>v\<close> may be \<open>null\<close> or \<open>undefined\<close>: the read throws.\<close>

definition member :: "runtime \<Rightarrow> jsval \<Rightarrow> jsstring \<Rightarrow> exn + jsval" where
  "member rt v name =
     (if nullish v then Inl (TypeError (null_read_msg rt name)) else Inr (get_prop v name))"

fun message :: "exn \<Rightarrow> jsstring" where
  "message (Error m) = m"
| "message (TypeError m) = m"
| "message (Rejected m) = m"

fun join :: "jsstring \<Rightarrow> jsstring list \<Rightarrow> jsstring" where
  "join sep [] = []"
| "join sep [x] = x"
| "join sep (x # y # ys) = x @ sep @ join sep (y # ys)"

text \<open>The decimal digits of a status code.\<close>

function dec :: "nat \<Rightarrow> jsstring" where
  "dec n = (if n < 10 then [0x30 + of_nat n] else dec (n div 10) @ [0x30 + of_nat (n mod 10)])"
  by pat_completeness auto
termination
  by (relation "measure id") auto

declare dec.simps [simp del]

text \<open>
  The string a value becomes inside a template literal. An element of an array that is
  \<open>null\<close> or \<open>undefined\<close> is printed as the empty string.
\<close>

fun to_string :: "runtime \<Rightarrow> jsval \<Rightarrow> jsstring" where
  "to_string rt Undefined = js ''undefined''"
| "to_string rt JNull = js ''null''"
| "to_string rt (JBool b) = (if b then js ''true'' else js ''false'')"
| "to_string rt (JNum n) = num_str rt n"
| "to_string rt (JStr s) = s"
| "to_string rt (JArr xs) =
     join (js '','') (map (\<lambda>x. if nullish x then [] else to_string rt x) xs)"
| "to_string rt (JObj kvs) = js ''[object Object]''"

section \<open>The \<open>fetch\<close> interface\<close>

text \<open>A call of \<open>fetch\<close>; \<open>fetch_body\<close> is the value given to \<open>JSON.stringify\<close>.\<close>

record fetch_request =
  fetch_url :: jsstring
  fetch_method :: jsstring
  fetch_headers :: "(jsstring \<times> jsstring) list"
  fetch_body :: jsval

text \<open>
  A response: \<open>resp_text\<close> and \<open>resp_json\<close> are what \<open>response.text()\<close> and
  \<open>response.json()\<close> resolve to, or their rejection. \<open>response.ok\<close> is a status from 200 to 299.
\<close>

record fetch_response =
  status :: nat
  statusText :: jsstring
  resp_text :: "exn + jsstring"
  resp_json :: "exn + jsval"

definition ok :: "fetch_response \<Rightarrow> bool" where
  "ok r \<longleftrightarrow> 200 \<le> status r \<and> status r \<le> 299"

section \<open>The endpoint \<open>POST /api/chat\<close>\<close>

record http_response =
  res_status :: nat
  res_body :: jsval

definition systemPrompt :: "jsstring \<Rightarrow> jsstring" where
  \<open>systemPrompt contextString =
     js ''You are a helpful and accurate Q&A system. Your sole task is to answer the user's question ONLY using the provided file content delimited by "FILE CONTENT START" and "FILE CONTENT END".\<newline>        \<newline>        RULES:\<newline>        1. If the answer is not found in the file content, state clearly that the information is not available in the document. Do NOT use external knowledge.\<newline>        2. Keep the answer concise and factual.\<newline>        \<newline>        FILE CONTENT START\<newline>        ''
     @ contextString @ js ''\<newline>        FILE CONTENT END''\<close>

definition apiUrl :: jsstring where
  "apiUrl = js ''https://generativelanguage.googleapis.com/v1beta/models/gemini-2.5-flash-preview-05-20:generateContent''"

definition gemini_payload :: "jsval \<Rightarrow> jsstring \<Rightarrow> jsval" where
  "gemini_payload userQuestion prompt =
     JObj [(js ''contents'', JArr [JObj [(js ''parts'', JArr [JObj [(js ''text'', userQuestion)]])]]),
           (js ''systemInstruction'', JObj [(js ''parts'', JArr [JObj [(js ''text'', JStr prompt)]])]),
           (js ''generationConfig'', JObj [(js ''temperature'', JNum (2 / 10))])]"

definition gemini_request :: "jsstring \<Rightarrow> jsval \<Rightarrow> jsstring \<Rightarrow> fetch_request" where
  "gemini_request API_KEY userQuestion prompt =
     \<lparr>fetch_url = apiUrl, fetch_method = js ''POST'',
      fetch_headers = [(js ''Content-Type'', js ''application/json''), (js ''X-goog-api-key'', API_KEY)],
      fetch_body = gemini_payload userQuestion prompt\<rparr>"

text \<open>\<open>result?.candidates?.[0]?.content?.parts?.[0]?.text\<close>\<close>

definition candidate_text :: "jsval \<Rightarrow> jsval" where
  "candidate_text result =
     opt_prop (opt_index0 (opt_prop (opt_prop (opt_index0 (opt_prop result (js ''candidates'')))
       (js ''content'')) (js ''parts''))) (js ''text'')"

definition fallback_answer :: jsstring where
  "fallback_answer = js ''Sorry, I could not generate a response from the file content.''"

text \<open>The \<open>catch\<close> block of the handler.\<close>

definition server_error :: "exn \<Rightarrow> http_response" where
  "server_error e =
     \<lparr>res_status = 500,
      res_body = JObj [(js ''error'', JStr (js ''An error occurred while processing the request.'')),
                       (js ''details'', JStr (message e))]\<rparr>"

text \<open>
  The handler: \<open>API_KEY\<close> is the environment variable (\<open>None\<close> when unset), \<open>req_body\<close> is
  \<open>req.body\<close> (\<open>Undefined\<close> when the request had no JSON body), \<open>fetch\<close> what the external
  API does with a request. The result is the response the handler sends, or the error it
  throws without sending one, and the requests made to the external API, in order. The
  destructuring of \<open>req.body\<close> stands before the \<open>try\<close>: on \<open>undefined\<close> or \<open>null\<close> it throws a
  \<open>TypeError\<close> (worded as by V8, the engine of Node) that the handler does not catch. What
  is written to the console is left out.
\<close>

definition destructure_error :: "jsval \<Rightarrow> exn" where
  "destructure_error v =
     TypeError (js ''Cannot destructure property 'fileContent' of 'req.body' as it is ''
       @ (if v = JNull then js ''null'' else js ''undefined'') @ js ''.'')"

definition chat_handler ::
  "jsstring option \<Rightarrow> jsval \<Rightarrow> (fetch_request \<Rightarrow> exn + fetch_response)
     \<Rightarrow> (exn + http_response) \<times> fetch_request list" where
  "chat_handler API_KEY req_body fetch =
     (case (case API_KEY of None \<Rightarrow> None | Some k \<Rightarrow> if k = [] then None else Some k) of
        None \<Rightarrow>
          (Inr \<lparr>res_status = 500,
            res_body = JObj [(js ''error'', JStr (js ''GEMINI_API_KEY not set in environment.''))]\<rparr>, [])
      | Some key \<Rightarrow>
          if nullish req_body then (Inl (destructure_error req_body), [])
          else
            let fileContent = get_prop req_body (js ''fileContent'');
                userQuestion = get_prop req_body (js ''userQuestion'')
            in if \<not> truthy fileContent \<or> \<not> truthy userQuestion then
                 (Inr \<lparr>res_status = 400,
                   res_body = JObj [(js ''error'',
                     JStr (js ''Missing fileContent or userQuestion in request body.''))]\<rparr>, [])
               else
                 (case chunkFileContent fileContent None of
                    Inl e \<Rightarrow> (Inr (server_error e), [])
                  | Inr contextChunks \<Rightarrow>
                      let contextString = join (js ''\<newline>---\<newline>'') contextChunks;
                          request = gemini_request key userQuestion (systemPrompt contextString)
                      in (case fetch request of
                            Inl e \<Rightarrow> (Inr (server_error e), [request])
                          | Inr geminiResponse \<Rightarrow>
                              if \<not> ok geminiResponse then
                                (case resp_text geminiResponse of
                                   Inl e \<Rightarrow> (Inr (server_error e), [request])
                                 | Inr errorBody \<Rightarrow>
                                     (Inr (server_error (Error (js ''Gemini API request failed: ''
                                        @ dec (status geminiResponse) @ js '' - '' @ errorBody))),
                                      [request]))
                              else
                                (case resp_json geminiResponse of
                                   Inl e \<Rightarrow> (Inr (server_error e), [request])
                                 | Inr result \<Rightarrow>
                                     (Inr \<lparr>res_status = 200,
                                       res_body = JObj [(js ''answer'',
                                         js_or (candidate_text result) (JStr fallback_answer))]\<rparr>,
                                      [request])))))"

section \<open>The client\<close>

subsection \<open>\<open>fetchWithBackoff\<close>\<close>








subsection \<open>The state and its handlers\<close>

record chat_message =
  role :: jsstring
  msg_text :: jsval

text \<open>The state of \<open>App\<close>: one field for each \<open>useState\<close>, with its initial value.\<close>

record client =
  fileContent :: jsstring
  fileName :: jsstring
  chatHistory :: "chat_message list"
  isLoading :: bool
  userInput :: jsstring
  error :: "jsstring option"
  userId :: jsval
  isAuthReady :: bool

definition initial :: client where
  "initial = \<lparr>fileContent = [], fileName = [], chatHistory = [], isLoading = False,
              userInput = [], error = None, userId = JNull, isAuthReady = False\<rparr>"

text \<open>
  The effect that starts Firebase when the component mounts: \<open>config_empty\<close> says that
  \<open>firebaseConfig\<close> has no keys, \<open>init\<close> is what the calls inside the \<open>try\<close> do
  (\<open>initializeApp\<close>, \<open>getAuth\<close>, \<open>getFirestore\<close>, \<open>onAuthStateChanged\<close>). Without a
  configuration, or when one of the calls throws, the client is declared ready.
\<close>

definition mount_effect :: "bool \<Rightarrow> exn + unit \<Rightarrow> client \<Rightarrow> client" where
  "mount_effect config_empty init st =
     (if config_empty then st\<lparr>isAuthReady := True\<rparr>
      else case init of
        Inl e \<Rightarrow> st\<lparr>isAuthReady := True\<rparr>
      | Inr u \<Rightarrow> st)"

text \<open>
  The listener given to \<open>onAuthStateChanged\<close>: without a \<open>user\<close> it signs in, and a
  sign-in that fails (\<open>signIn\<close>) is caught; then the user id becomes
  \<open>auth.currentUser?.uid || crypto.randomUUID()\<close>, where \<open>currentUid\<close> is the first operand
  and \<open>uuid\<close> the second.
\<close>

definition auth_state_changed ::
  "bool \<Rightarrow> exn + unit \<Rightarrow> jsval \<Rightarrow> jsstring \<Rightarrow> client \<Rightarrow> client" where
  "auth_state_changed user signIn currentUid uuid st =
     st\<lparr>userId := js_or currentUid (JStr uuid), isAuthReady := True\<rparr>"

text \<open>\<open>handleFileChange\<close>: \<open>file\<close> is the name of \<open>event.target.files[0]\<close>, if there is one.\<close>

definition handleFileChange :: "jsstring option \<Rightarrow> client \<Rightarrow> client" where
  "handleFileChange file st =
     (case file of
        None \<Rightarrow> st
      | Some name \<Rightarrow> st\<lparr>fileName := name, chatHistory := []\<rparr>)"

text \<open>\<open>reader.onload\<close> and \<open>reader.onerror\<close> of the reader started by \<open>handleFileChange\<close>.\<close>

definition reader_onload :: "jsstring \<Rightarrow> jsstring \<Rightarrow> client \<Rightarrow> client" where
  "reader_onload name result st =
     st\<lparr>fileContent := result,
        chatHistory := [\<lparr>role = js ''ai'',
          msg_text = JStr (js ''File **'' @ name
            @ js ''** uploaded successfully. Ask me a question about its content!'')\<rparr>]\<rparr>"

definition reader_onerror :: "client \<Rightarrow> client" where
  "reader_onerror st = st\<lparr>error := Some (js ''Error reading file.'')\<rparr>"

definition client_request :: "jsstring \<Rightarrow> jsstring \<Rightarrow> fetch_request" where
  "client_request content userQuestion =
     \<lparr>fetch_url = js ''/api/chat'', fetch_method = js ''POST'',
      fetch_headers = [(js ''Content-Type'', js ''application/json'')],
      fetch_body = JObj [(js ''fileContent'', JStr content), (js ''userQuestion'', JStr userQuestion)]\<rparr>"

text \<open>
  \<open>handleSendMessage\<close> up to its \<open>await\<close>: \<open>None\<close> is the early return; otherwise the new
  state and the request handed to \<open>fetchWithBackoff\<close>.
\<close>

definition handleSendMessage_begin :: "client \<Rightarrow> (client \<times> fetch_request) option" where
  "handleSendMessage_begin st =
     (if trim (userInput st) = [] \<or> isLoading st \<or> fileContent st = [] then None
      else
        let userQuestion = trim (userInput st)
        in Some (st\<lparr>chatHistory := chatHistory st @ [\<lparr>role = js ''user'', msg_text = JStr userQuestion\<rparr>],
                    userInput := [], isLoading := True, error := None\<rparr>,
                 client_request (fileContent st) userQuestion))"

text \<open>
  The rest of the \<open>try\<close> block once \<open>fetchWithBackoff\<close> has settled with \<open>r\<close>: the answer to
  show, or the error thrown.
\<close>

definition reply_of :: "runtime \<Rightarrow> exn + fetch_response option \<Rightarrow> exn + jsval" where
  "reply_of rt r =
     (case r of
        Inl e \<Rightarrow> Inl e
      | Inr None \<Rightarrow> Inl (TypeError (null_read_msg rt (js ''json'')))
      | Inr (Some response) \<Rightarrow>
          (case resp_json response of
             Inl e \<Rightarrow> Inl e
           | Inr result \<Rightarrow>
               (case member rt result (js ''error'') of
                  Inl e \<Rightarrow> Inl e
                | Inr err \<Rightarrow>
                    if truthy err then Inl (Error (to_string rt err))
                    else Inr (get_prop result (js ''answer'')))))"

text \<open>
  \<open>handleSendMessage\<close> after its \<open>await\<close>, on the state of that moment: the updates of
  \<open>setChatHistory\<close> are functions of the previous history. The warning sign of the error
  text is U+26A0 U+FE0F.
\<close>

definition handleSendMessage_finish :: "runtime \<Rightarrow> exn + fetch_response option \<Rightarrow> client \<Rightarrow> client" where
  "handleSendMessage_finish rt r st =
     (case reply_of rt r of
        Inr answer \<Rightarrow>
          st\<lparr>chatHistory := chatHistory st @ [\<lparr>role = js ''ai'', msg_text = answer\<rparr>],
             isLoading := False\<rparr>
      | Inl e \<Rightarrow>
          st\<lparr>error := Some (js ''Failed to get answer from server. Details: '' @ message e),
             chatHistory := chatHistory st @ [\<lparr>role = js ''ai'',
               msg_text = JStr ([0x26A0, 0xFE0F]
                 @ js '' **Server Error:** I couldn't process that request. Please check the backend server logs. (''
                 @ message e @ js '')'')\<rparr>],
             isLoading := False\<rparr>)"


text \<open>
  The events of a session: the component mounts, the authentication state changes, a file
  is chosen, a reader finishes, the input changes, the form is submitted, a pending
  \<open>fetchWithBackoff\<close> settles.
\<close>

datatype event =
    Mount bool "exn + unit"
  | AuthStateChanged bool "exn + unit" jsval jsstring
  | FileChange "jsstring option"
  | ReaderLoad jsstring jsstring
  | ReaderError
  | InputChange jsstring
  | Submit
  | Settle "exn + fetch_response option"

fun step :: "runtime \<Rightarrow> client \<Rightarrow> event \<Rightarrow> client" where
  "step rt st (Mount config_empty init) = mount_effect config_empty init st"
| "step rt st (AuthStateChanged user signIn currentUid uuid) =
     auth_state_changed user signIn currentUid uuid st"
| "step rt st (FileChange file) = handleFileChange file st"
| "step rt st (ReaderLoad name result) = reader_onload name result st"
| "step rt st ReaderError = reader_onerror st"
| "step rt st (InputChange v) = st\<lparr>userInput := v\<rparr>"
| "step rt st Submit = (case handleSendMessage_begin st of None \<Rightarrow> st | Some (st', request) \<Rightarrow> st')"
| "step rt st (Settle r) = handleSendMessage_finish rt r st"

definition run :: "runtime \<Rightarrow> event list \<Rightarrow> client" where
  "run rt events = foldl (step rt) initial events"

section \<open>Vocabulary of the properties\<close>

text \<open>A string with a character that is not whitespace: what the filter of the sentences keeps.\<close>

definition nonblank :: "jsstring \<Rightarrow> bool" where
  "nonblank s \<longleftrightarrow> (\<exists>c\<in>set s. \<not> is_space c)"

text \<open>
  A run of sentences as the loop forms one: not empty, no empty sentence, and within the
  maximum size unless it is a single sentence.
\<close>

definition bounded_run :: "nat \<Rightarrow> jsstring list \<Rightarrow> bool" where
  "bounded_run m g \<longleftrightarrow> g \<noteq> [] \<and> [] \<notin> set g \<and> (length (concat g) \<le> m \<or> length g = 1)"

text \<open>\<open>c\<close> is \<open>u\<close> with some whitespace characters deleted and nothing else changed.\<close>

definition spaces_removed :: "jsstring \<Rightarrow> jsstring \<Rightarrow> bool" where
  "spaces_removed c u \<longleftrightarrow>
     subseq c u \<and> filter (\<lambda>x. \<not> is_space x) c = filter (\<lambda>x. \<not> is_space x) u"

text \<open>The concatenation of the pieces that the filter keeps.\<close>

abbreviation kept :: "jsstring list \<Rightarrow> jsstring" where
  "kept A \<equiv> concat (filter (\<lambda>s. length (trim s) > 0) A)"

text \<open>A string without a line feed and without \<open>.\<close>, \<open>?\<close> or \<open>!\<close>: the separator matches nowhere inside.\<close>

definition plain :: "jsstring \<Rightarrow> bool" where
  "plain S \<longleftrightarrow> (\<forall>c\<in>set S. c \<noteq> 0x0A \<and> \<not> is_terminator c)"

text \<open>The environment variable \<open>GEMINI_API_KEY\<close> is absent or empty.\<close>

definition key_unset :: "jsstring option \<Rightarrow> bool" where
  "key_unset API_KEY \<longleftrightarrow> API_KEY = None \<or> API_KEY = Some []"



text \<open>The messages the client puts into the history for a question and for a loaded file.\<close>

definition user_message :: "jsstring \<Rightarrow> chat_message" where
  "user_message q = \<lparr>role = js ''user'', msg_text = JStr q\<rparr>"

definition intro_message :: "jsstring \<Rightarrow> chat_message" where
  "intro_message name = \<lparr>role = js ''ai'',
     msg_text = JStr (js ''File **'' @ name
       @ js ''** uploaded successfully. Ask me a question about its content!'')\<rparr>"

text \<open>The events that replace the history: a file is chosen, a file has been read.\<close>

fun resets_history :: "event \<Rightarrow> bool" where
  "resets_history (FileChange (Some name)) = True"
| "resets_history (ReaderLoad name result) = True"
| "resets_history ev = False"

text \<open>
  A message as the client builds one: the role \<open>user\<close> with the trimmed, non-empty
  question, or the role \<open>ai\<close>.
\<close>

definition well_formed_message :: "chat_message \<Rightarrow> bool" where
  "well_formed_message m \<longleftrightarrow>
     (role m = js ''user'' \<and> (\<exists>q. msg_text m = JStr q \<and> q \<noteq> [] \<and> trim q = q)) \<or> role m = js ''ai''"




section \<open>Concrete inputs\<close>

text \<open>
  An engine for the examples: it prints the non-negative integers, which are the only
  numbers the examples print, and words its \<open>TypeError\<close> as V8 does.
\<close>

definition example_runtime :: runtime where
  "example_runtime =
     \<lparr>num_str = (\<lambda>n. dec (nat \<lfloor>n\<rfloor>)),
      null_read_msg = (\<lambda>name. js ''Cannot read properties of null (reading '' @ [0x27] @ name
        @ [0x27] @ js '')'')\<rparr>"


definition gemini_says :: "jsstring \<Rightarrow> jsval \<Rightarrow> fetch_request \<Rightarrow> exn + fetch_response" where
  "gemini_says body result request =
     Inr \<lparr>status = 200, statusText = js ''OK'', resp_text = Inr body, resp_json = Inr result\<rparr>"

definition yes_result :: jsval where
  "yes_result =
     JObj [(js ''candidates'',
       JArr [JObj [(js ''content'', JObj [(js ''parts'', JArr [JObj [(js ''text'', JStr (js ''yes''))]])])]])]"

text \<open>A request body with both fields, and one without the question.\<close>

definition example_body :: jsval where
  "example_body = JObj [(js ''fileContent'', JStr (js ''a. b'')), (js ''userQuestion'', JStr (js ''q''))]"


text \<open>A request body whose \<open>fileContent\<close> is the number 123.\<close>

definition numeric_body :: jsval where
  "numeric_body = JObj [(js ''fileContent'', JNum 123), (js ''userQuestion'', JStr (js ''q''))]"





text \<open>The client with the file \<open>hello\<close> loaded and the question \<open>q\<close> typed.\<close>

definition asking :: client where
  "asking = initial\<lparr>fileContent := js ''hello'', userInput := js ''q''\<rparr>"

definition example_session :: "event list" where
  "example_session = [ReaderLoad (js ''a.txt'') (js ''hello''), InputChange (js ''q''), Submit]"

section \<open>Trimming, the loop over the sentences, and the split\<close>

lemma trim_decomp:
  "\<exists>l r. s = l @ trim s @ r \<and> (\<forall>c\<in>set l. is_space c) \<and> (\<forall>c\<in>set r. is_space c)"
proof -
  let ?l = "takeWhile is_space s"
  let ?m = "dropWhile is_space s"
  let ?r = "rev (takeWhile is_space (rev ?m))"
  have "rev ?m = takeWhile is_space (rev ?m) @ dropWhile is_space (rev ?m)"
    by simp
  then have "?m = rev (dropWhile is_space (rev ?m)) @ ?r"
    by (metis rev_append rev_rev_ident)
  then have "s = ?l @ trim s @ ?r"
    by (metis takeWhile_dropWhile_id trim_def)
  moreover have "\<forall>c\<in>set ?l. is_space c"
    by (auto dest: set_takeWhileD)
  moreover have "\<forall>c\<in>set ?r. is_space c"
    by (auto dest: set_takeWhileD)
  ultimately show ?thesis by blast
qed

lemma trim_ends:
  assumes "trim s \<noteq> []"
  shows "\<not> is_space (hd (trim s)) \<and> \<not> is_space (last (trim s))"
proof -
  let ?m = "dropWhile is_space s"
  let ?t = "dropWhile is_space (rev ?m)"
  from assms have t: "?t \<noteq> []" by (simp add: trim_def)
  then have "\<not> is_space (hd ?t)" by (rule hd_dropWhile)
  then have l: "\<not> is_space (last (trim s))"
    using t by (simp add: trim_def last_rev)
  have m: "?m \<noteq> []"
  proof
    assume "?m = []"
    with t show False by simp
  qed
  then have hm: "\<not> is_space (hd ?m)" by (rule hd_dropWhile)
  have "rev ?m = takeWhile is_space (rev ?m) @ ?t" by simp
  then have "?m = trim s @ rev (takeWhile is_space (rev ?m))"
    by (metis rev_append rev_rev_ident trim_def)
  with assms have "hd ?m = hd (trim s)" by (metis hd_append2)
  with hm l show ?thesis by simp
qed

lemma trim_nonempty_iff: "length (trim s) > 0 \<longleftrightarrow> nonblank s"
proof
  assume "length (trim s) > 0"
  then have ne: "trim s \<noteq> []" by simp
  then have "\<not> is_space (hd (trim s))" using trim_ends by blast
  moreover from ne have "hd (trim s) \<in> set (trim s)" by simp
  moreover obtain l r where "s = l @ trim s @ r" using trim_decomp by blast
  then have "set (trim s) \<subseteq> set s" by (metis Un_upper1 Un_upper2 set_append subset_trans)
  ultimately show "nonblank s" unfolding nonblank_def by blast
next
  assume nb: "nonblank s"
  obtain l r where d: "s = l @ trim s @ r" "\<forall>c\<in>set l. is_space c" "\<forall>c\<in>set r. is_space c"
    using trim_decomp by blast
  show "length (trim s) > 0"
  proof (rule ccontr)
    assume "\<not> length (trim s) > 0"
    then have "trim s = []" by simp
    with d have "\<forall>c\<in>set s. is_space c" by (metis Un_iff append_Nil set_append)
    with nb show False unfolding nonblank_def by blast
  qed
qed

lemma trim_length_le: "length (trim s) \<le> length s"
  unfolding trim_def
  by (metis length_dropWhile_le length_rev le_trans)

lemma trim_id:
  assumes "s \<noteq> []" "\<not> is_space (hd s)" "\<not> is_space (last s)"
  shows "trim s = s"
proof -
  from assms have "dropWhile is_space s = s" by (cases s) auto
  moreover from assms have "dropWhile is_space (rev s) = rev s"
    by (cases "rev s") (auto simp: last_rev hd_rev)
  ultimately show ?thesis by (simp add: trim_def)
qed

lemma bounded_run_concat: "bounded_run m g \<Longrightarrow> concat g \<noteq> []"
  by (cases g) (auto simp: bounded_run_def)

lemma chunk_loop_groups:
  assumes "[] \<notin> set ss" "g0 = [] \<or> bounded_run m g0"
  shows "\<exists>G g. chunk_loop m ss (map (\<lambda>g. trim (concat g)) G0) (concat g0)
             = (map (\<lambda>g. trim (concat g)) (G0 @ G), concat g)
           \<and> concat G @ g = g0 @ ss
           \<and> (\<forall>x\<in>set G. bounded_run m x) \<and> (g = [] \<or> bounded_run m g)"
  using assms
proof (induction ss arbitrary: G0 g0)
  case Nil
  show ?case
    by (rule exI[of _ "[]"], rule exI[of _ g0]) (use Nil in simp)
next
  case (Cons s ss)
  from Cons.prems have s: "s \<noteq> []" and ss: "[] \<notin> set ss" by auto
  show ?case
  proof (cases "length (concat g0) + length s > m \<and> length (concat g0) > 0")
    case True
    then have "concat g0 \<noteq> []" by auto
    then have g0: "bounded_run m g0" using Cons.prems(2) by auto
    have one: "[s] = [] \<or> bounded_run m [s]" using s by (simp add: bounded_run_def)
    from Cons.IH[OF ss one, of "G0 @ [g0]"]
    obtain G g where r: "chunk_loop m ss (map (\<lambda>g. trim (concat g)) (G0 @ [g0])) (concat [s])
             = (map (\<lambda>g. trim (concat g)) ((G0 @ [g0]) @ G), concat g)"
        "concat G @ g = [s] @ ss" "\<forall>x\<in>set G. bounded_run m x" "g = [] \<or> bounded_run m g"
      by blast
    show ?thesis
      by (rule exI[of _ "g0 # G"], rule exI[of _ g]) (use True r g0 in simp)
  next
    case False
    have run: "g0 @ [s] = [] \<or> bounded_run m (g0 @ [s])"
    proof (cases "g0 = []")
      case True
      then show ?thesis using s by (simp add: bounded_run_def)
    next
      case ne: False
      then have b: "bounded_run m g0" using Cons.prems(2) by simp
      then have "concat g0 \<noteq> []" by (rule bounded_run_concat)
      with False have "length (concat g0) + length s \<le> m" by auto
      with b s show ?thesis by (simp add: bounded_run_def)
    qed
    from Cons.IH[OF ss run, of G0]
    obtain G g where r: "chunk_loop m ss (map (\<lambda>g. trim (concat g)) G0) (concat (g0 @ [s]))
             = (map (\<lambda>g. trim (concat g)) (G0 @ G), concat g)"
        "concat G @ g = (g0 @ [s]) @ ss" "\<forall>x\<in>set G. bounded_run m x" "g = [] \<or> bounded_run m g"
      by blast
    show ?thesis
      by (rule exI[of _ G], rule exI[of _ g]) (use False r in auto)
  qed
qed

lemma sentences_nonblank: "s \<in> set (sentences text) \<Longrightarrow> nonblank s"
  using trim_nonempty_iff[of s] by (simp add: sentences_def)

lemma nonblank_nonempty: "nonblank s \<Longrightarrow> s \<noteq> []"
  by (auto simp: nonblank_def)

lemma chunk_text_groups:
  "\<exists>groups. chunk_text text m = map (\<lambda>g. trim (concat g)) groups
       \<and> concat groups = sentences text
       \<and> (\<forall>g\<in>set groups. bounded_run m g)"
proof -
  have ne: "[] \<notin> set (sentences text)"
    using sentences_nonblank nonblank_nonempty by blast
  have "([]::jsstring list) = [] \<or> bounded_run m []" by simp
  from chunk_loop_groups[OF ne this, of "[]"]
  obtain G g where r: "chunk_loop m (sentences text) [] [] = (map (\<lambda>g. trim (concat g)) G, concat g)"
      "concat G @ g = sentences text" "\<forall>x\<in>set G. bounded_run m x" "g = [] \<or> bounded_run m g"
    by auto
  show ?thesis
  proof (cases "g = []")
    case True
    show ?thesis
      by (rule exI[of _ G]) (use True r in \<open>simp add: chunk_text_def\<close>)
  next
    case False
    with r(4) have b: "bounded_run m g" by simp
    then have "concat g \<noteq> []" by (rule bounded_run_concat)
    then show ?thesis
      by (intro exI[of _ "G @ [g]"]) (use r b in \<open>simp add: chunk_text_def\<close>)
  qed
qed

lemma spaces_removed_refl: "spaces_removed x x"
  by (simp add: spaces_removed_def)

lemma spaces_removed_Nil: "\<forall>c\<in>set w. is_space c \<Longrightarrow> spaces_removed [] w"
  by (simp add: spaces_removed_def)

lemma spaces_removed_append:
  "spaces_removed a u \<Longrightarrow> spaces_removed b v \<Longrightarrow> spaces_removed (a @ b) (u @ v)"
  by (simp add: spaces_removed_def list_emb_append_mono)

lemma spaces_removed_trans:
  "spaces_removed a b \<Longrightarrow> spaces_removed b c \<Longrightarrow> spaces_removed a c"
  unfolding spaces_removed_def using subseq_order.trans by auto

lemma spaces_removed_trim: "spaces_removed (trim s) s"
proof -
  obtain l r where d: "s = l @ trim s @ r" "\<forall>c\<in>set l. is_space c" "\<forall>c\<in>set r. is_space c"
    using trim_decomp by blast
  have "spaces_removed ([] @ trim s @ []) (l @ trim s @ r)"
    by (intro spaces_removed_append spaces_removed_Nil spaces_removed_refl d(2,3))
  with d(1) show ?thesis by simp
qed

lemma spaces_removed_split:
  assumes "spaces_removed (a @ b) u"
  shows "\<exists>u1 u2. u = u1 @ u2 \<and> spaces_removed a u1 \<and> spaces_removed b u2"
proof -
  let ?f = "filter (\<lambda>x. \<not> is_space x)"
  from assms have sub: "subseq (a @ b) u" and fl: "?f (a @ b) = ?f u"
    by (simp_all add: spaces_removed_def)
  from list_emb_appendD[OF sub] obtain u1 u2
    where u: "u = u1 @ u2" and s1: "subseq a u1" and s2: "subseq b u2" by blast
  have e1: "subseq (?f a) (?f u1)" and e2: "subseq (?f b) (?f u2)"
    using s1 s2 by simp_all
  then have l1: "length (?f a) \<le> length (?f u1)" and l2: "length (?f b) \<le> length (?f u2)"
    by (auto dest: list_emb_length)
  from fl u have "length (?f a) + length (?f b) = length (?f u1) + length (?f u2)"
    by (metis filter_append length_append)
  with l1 l2 have "length (?f a) = length (?f u1)" "length (?f b) = length (?f u2)"
    by linarith+
  with e1 e2 have "?f a = ?f u1" "?f b = ?f u2"
    by (auto intro: subseq_same_length)
  with s1 s2 u show ?thesis
    unfolding spaces_removed_def by blast
qed

lemma sep_match_facts:
  assumes "sep_match S q = Some (cap, e0)"
  shows "q \<le> e0" "e0 \<le> length S" "\<not> nonblank cap" "\<forall>c\<in>set (substring S q e0). is_space c"
proof -
  have tw: "take (length (takeWhile is_space xs)) xs = takeWhile is_space xs" for xs :: jsstring
    by (metis append_eq_conv_conj takeWhile_dropWhile_id)
  have sp: "is_space 0x0A" by (simp add: is_space_def)
  have seg: "substring S q (q + k + length (takeWhile is_space (drop (q + k) S)))
      = substring S q (q + k) @ takeWhile is_space (drop (q + k) S)" for k
    by (simp add: substring_def take_add tw add.commute)
  have len: "q + k \<le> length S \<Longrightarrow> q + k + length (takeWhile is_space (drop (q + k) S)) \<le> length S" for k
    using length_takeWhile_le[of is_space "drop (q + k) S"] by simp
  consider (a) "substring S q (q + 2) = [0x0A, 0x0A]" "cap = [0x0A, 0x0A]" "e0 = skip_spaces S (q + 2)"
    | (b) "substring S q (q + 1) = [0x0A]" "cap = [0x0A]" "e0 = skip_spaces S (q + 1)"
    | (c) "q \<le> length S" "cap = []" "e0 = skip_spaces S q"
    using assms by (auto simp: sep_match_def split: if_splits)
  then have "q \<le> e0 \<and> e0 \<le> length S \<and> \<not> nonblank cap \<and> (\<forall>c\<in>set (substring S q e0). is_space c)"
  proof cases
    case a
    from a(1) have "length (substring S q (q + 2)) = 2" by simp
    then have "q + 2 \<le> length S" by (simp add: substring_def)
    with a sp seg[of 2] len[of 2] show ?thesis
      by (auto simp: skip_spaces_def nonblank_def dest: set_takeWhileD)
  next
    case b
    from b(1) have "length (substring S q (q + 1)) = 1" by simp
    then have "q + 1 \<le> length S" by (simp add: substring_def)
    with b sp seg[of 1] len[of 1] show ?thesis
      by (auto simp: skip_spaces_def nonblank_def dest: set_takeWhileD)
  next
    case c
    with seg[of 0] len[of 0] show ?thesis
      by (auto simp: skip_spaces_def nonblank_def substring_def dest: set_takeWhileD)
  qed
  then show "q \<le> e0" "e0 \<le> length S" "\<not> nonblank cap" "\<forall>c\<in>set (substring S q e0). is_space c"
    by simp_all
qed

lemma piece_removed: "spaces_removed (kept [T]) T"
proof (cases "nonblank T")
  case True
  then show ?thesis by (simp add: trim_nonempty_iff[symmetric] spaces_removed_refl)
next
  case False
  then have "\<forall>c\<in>set T. is_space c" by (simp add: nonblank_def)
  with False show ?thesis
    using trim_nonempty_iff[of T] by (simp add: spaces_removed_Nil)
qed

lemma substring_take: "p \<le> q \<Longrightarrow> q \<le> length S \<Longrightarrow> take p S @ substring S p q = take q S"
  unfolding substring_def
  by (metis add_diff_cancel_left' le_Suc_ex take_add)

lemma split_loop_done:
  "\<not> q < length S \<Longrightarrow> split_loop S p q A = A @ [substring S p (length S)]"
  by (subst split_loop.simps) simp

lemma split_loop_none:
  "q < length S \<Longrightarrow> sep_match S q = None \<Longrightarrow> split_loop S p q A = split_loop S p (q + 1) A"
  by (subst split_loop.simps) simp

lemma split_loop_skip:
  "q < length S \<Longrightarrow> sep_match S q = Some (cap, e0) \<Longrightarrow> min e0 (length S) = p
     \<Longrightarrow> split_loop S p q A = split_loop S p (q + 1) A"
  by (subst split_loop.simps) simp

lemma split_loop_push:
  "q < length S \<Longrightarrow> sep_match S q = Some (cap, e0) \<Longrightarrow> min e0 (length S) \<noteq> p
     \<Longrightarrow> split_loop S p q A
       = split_loop S (min e0 (length S)) (min e0 (length S)) (A @ [substring S p q, cap])"
  by (subst split_loop.simps) simp

lemma split_loop_removed:
  "p \<le> q \<Longrightarrow> q \<le> length S \<Longrightarrow> spaces_removed (kept A) (take p S)
     \<Longrightarrow> spaces_removed (kept (split_loop S p q A)) S"
proof (induction S p q A rule: split_loop.induct)
  case (1 S p q A)
  show ?case
  proof (cases "q < length S")
    case False
    with "1.prems" have q: "q = length S" by simp
    have "spaces_removed (kept A @ kept [substring S p (length S)]) (take p S @ substring S p (length S))"
      by (intro spaces_removed_append "1.prems"(3) piece_removed)
    moreover have "take p S @ substring S p (length S) = S"
      using substring_take[of p "length S" S] "1.prems" by simp
    ultimately show ?thesis
      by (simp add: split_loop_done[OF False])
  next
    case True
    then have q1: "q + 1 \<le> length S" and pq1: "p \<le> q + 1"
      using "1.prems" by simp_all
    show ?thesis
    proof (cases "sep_match S q")
      case None
      have "spaces_removed (kept (split_loop S p (q + 1) A)) S"
        by (rule "1.IH"(1)[OF True None pq1 q1 "1.prems"(3)])
      then show ?thesis
        by (simp only: split_loop_none[OF True None])
    next
      case (Some m)
      obtain cap e0 where m: "m = (cap, e0)" by (cases m)
      note sm = Some[unfolded m]
      note f = sep_match_facts[OF sm]
      let ?e = "min e0 (length S)"
      from f have e: "?e = e0" by simp
      show ?thesis
      proof (cases "?e = p")
        case eq: True
        have "spaces_removed (kept (split_loop S p (q + 1) A)) S"
          by (rule "1.IH"(2)[OF True Some m[symmetric] eq pq1 q1 "1.prems"(3)])
        then show ?thesis
          by (simp only: split_loop_skip[OF True sm eq])
      next
        case ne: False
        have nb: "\<not> 0 < length (trim cap)"
          using f(3) trim_nonempty_iff[of cap] by simp
        have k: "kept (A @ [substring S p q, cap]) = (kept A @ kept [substring S p q]) @ []"
          using nb by simp
        have r: "spaces_removed ((kept A @ kept [substring S p q]) @ [])
                ((take p S @ substring S p q) @ substring S q e0)"
          by (intro spaces_removed_append "1.prems"(3) piece_removed spaces_removed_Nil f(4))
        have u: "(take p S @ substring S p q) @ substring S q e0 = take e0 S"
          using substring_take[of p q S] substring_take[of q e0 S] "1.prems" f by simp
        have inv: "spaces_removed (kept (A @ [substring S p q, cap])) (take ?e S)"
          unfolding k e using r[unfolded u] .
        have le: "?e \<le> ?e" "?e \<le> length S" by simp_all
        have "spaces_removed (kept (split_loop S ?e ?e (A @ [substring S p q, cap]))) S"
          by (rule "1.IH"(3)[OF True Some m[symmetric] ne le inv])
        then show ?thesis
          by (simp only: split_loop_push[OF True sm ne])
      qed
    qed
  qed
qed

lemma sentences_removed: "spaces_removed (concat (sentences text)) text"
proof (cases "text = []")
  case True
  then show ?thesis
    by (simp add: sentences_def split_def sep_match_def substring_def spaces_removed_def trim_def)
next
  case False
  have "spaces_removed (kept []) (take 0 text)" by (simp add: spaces_removed_refl)
  from split_loop_removed[OF _ _ this] False show ?thesis
    by (simp add: sentences_def split_def)
qed

lemma sep_match_plain:
  assumes "plain S" "q < length S"
  shows "sep_match S q = None"
proof -
  from assms have a: "S ! q \<noteq> 0x0A" by (simp add: plain_def)
  from assms(2) have "drop q S = S ! q # drop (Suc q) S" by (simp add: Cons_nth_drop_Suc)
  with a have n: "substring S q (q + 2) \<noteq> [0x0A, 0x0A]" "substring S q (q + 1) \<noteq> [0x0A]"
    by (simp_all add: substring_def)
  have "\<not> is_terminator (S ! (q - 1))"
    using assms by (simp add: plain_def)
  with n show ?thesis by (simp add: sep_match_def)
qed

lemma split_loop_plain:
  "plain S \<Longrightarrow> split_loop S p q A = A @ [substring S p (length S)]"
proof (induction S p q A rule: split_loop.induct)
  case (1 S p q A)
  show ?case
  proof (cases "q < length S")
    case True
    have n: "sep_match S q = None" by (rule sep_match_plain[OF "1.prems" True])
    from "1.IH"(1)[OF True n "1.prems"] show ?thesis
      by (simp only: split_loop_none[OF True n])
  next
    case False
    then show ?thesis by (rule split_loop_done)
  qed
qed

lemma chunk_text_plain:
  assumes "S \<noteq> []" "plain S" "\<not> is_space (hd S)" "\<not> is_space (last S)"
  shows "chunk_text S m = [S]"
proof -
  have t: "trim S = S" using assms by (simp add: trim_id)
  have "split S = [S]"
    using assms(1) by (simp add: split_def split_loop_plain[OF assms(2)] substring_def)
  with t assms(1) have "sentences S = [S]" by (simp add: sentences_def)
  with t assms(1) show ?thesis by (simp add: chunk_text_def)
qed

lemma chunk_in_group:
  assumes "c \<in> set (chunk_text text m)"
  shows "\<exists>g. g \<noteq> [] \<and> set g \<subseteq> set (sentences text) \<and> c = trim (concat g)
     \<and> (length (concat g) \<le> m \<or> length g = 1)
     \<and> (\<exists>u. sublist u text \<and> spaces_removed (concat g) u)"
proof -
  obtain groups where gr: "chunk_text text m = map (\<lambda>g. trim (concat g)) groups"
      "concat groups = sentences text" "\<forall>g\<in>set groups. bounded_run m g"
    using chunk_text_groups by blast
  from assms gr(1) obtain g where g: "g \<in> set groups" "c = trim (concat g)" by auto
  then obtain G1 G2 where sp: "groups = G1 @ g # G2" by (meson split_list)
  from g gr(3) have b: "bounded_run m g" by blast
  have st: "sentences text = concat G1 @ g @ concat G2"
    using gr(2) sp by simp
  have sub: "set g \<subseteq> set (sentences text)"
    unfolding st by auto
  have "concat (sentences text) = concat (concat G1) @ concat g @ concat (concat G2)"
    unfolding st by simp
  with sentences_removed[of "text"]
  have "spaces_removed (concat (concat G1) @ concat g @ concat (concat G2)) text" by simp
  from spaces_removed_split[OF this] obtain u1 r where
    1: "text = u1 @ r" "spaces_removed (concat g @ concat (concat G2)) r" by blast
  from spaces_removed_split[OF 1(2)] obtain u u2 where
    2: "r = u @ u2" "spaces_removed (concat g) u" by blast
  from 1(1) 2(1) have "sublist u text" by simp
  with 2(2) b g(2) sub show ?thesis
    unfolding bounded_run_def by blast
qed

section \<open>The chunks of a text\<close>

lemma sentences_empty: "sentences [] = []"
  by (simp add: sentences_def split_def sep_match_def substring_def trim_def)

lemma chunk_text_empty: "chunk_text [] m = []"
  by (simp add: chunk_text_def sentences_empty)

lemma chunkFileContent_string:
  "chunkFileContent (JStr s) mx = Inr (chunk_text s (case mx of None \<Rightarrow> 500 | Some m \<Rightarrow> m))"
  by (cases "s = []") (simp_all add: chunkFileContent_def chunk_text_empty)

text \<open>
  C1, as stated: with the default maximum of 500 every chunk has length at most 500. It
  fails for a text of 501 letters \<open>a\<close>: the text is one sentence, and the loop never cuts
  inside a sentence, so the only chunk has 501 characters.
\<close>

theorem chunk_bound_counterexample:
  "chunkFileContent (JStr (replicate 501 0x61)) None = Inr [replicate 501 0x61]
   \<and> \<not> length (replicate 501 (0x61 :: jschar)) \<le> 500"
proof -
  let ?S = "replicate 501 (0x61 :: jschar)"
  have ne: "?S \<noteq> []" by simp
  have pl: "plain ?S" by (simp add: plain_def is_terminator_def)
  have sp: "\<not> is_space (0x61 :: jschar)" by (simp add: is_space_def)
  have h: "hd ?S = 0x61" "last ?S = 0x61" by (simp_all add: hd_replicate last_replicate)
  have "chunk_text ?S 500 = [?S]"
    by (rule chunk_text_plain[OF ne pl]) (simp_all only: h sp not_False_eq_True)
  then show ?thesis by (simp add: chunkFileContent_string)
qed

text \<open>
  C1, amended: with the default maximum of 500, every chunk has length at most 500 unless it
  is a single sentence, trimmed, that is itself longer than 500.
\<close>

theorem chunk_soft_bound:
  "\<exists>chunks. chunkFileContent (JStr text) None = Inr chunks \<and>
     (\<forall>c\<in>set chunks. length c \<le> 500 \<or> (\<exists>s\<in>set (sentences text). c = trim s \<and> 500 < length s))"
proof -
  have "length c \<le> 500 \<or> (\<exists>s\<in>set (sentences text). c = trim s \<and> 500 < length s)"
    if c: "c \<in> set (chunk_text text 500)" for c
  proof -
    from chunk_in_group[OF c] obtain g where g: "g \<noteq> []" "set g \<subseteq> set (sentences text)"
        "c = trim (concat g)" "length (concat g) \<le> 500 \<or> length g = 1" by blast
    show ?thesis
    proof (cases "length (concat g) \<le> 500")
      case True
      with g(3) trim_length_le[of "concat g"] show ?thesis by simp
    next
      case False
      with g(4) have "length g = 1" by simp
      then obtain s where s: "g = [s]" by (cases g) auto
      with g(2,3) False show ?thesis by auto
    qed
  qed
  then show ?thesis by (simp add: chunkFileContent_string)
qed

theorem chunk_soft_bound_witness:
  "chunkFileContent (JStr (js ''a. b'')) None = Inr [js ''a.b''] \<and>
   (length (js ''a.b'') \<le> 500 \<or>
     (\<exists>s\<in>set (sentences (js ''a. b'')). js ''a.b'' = trim s \<and> 500 < length s))"
proof -
  have e: "chunkFileContent (JStr (js ''a. b'')) None = Inr [js ''a.b'']" by code_simp
  from chunk_soft_bound[of "js ''a. b''"] obtain chunks where
    c: "chunkFileContent (JStr (js ''a. b'')) None = Inr chunks"
       "\<forall>c\<in>set chunks. length c \<le> 500 \<or> (\<exists>s\<in>set (sentences (js ''a. b'')). c = trim s \<and> 500 < length s)"
    by blast
  from c(1) e have "chunks = [js ''a.b'']" by simp
  with c(2) e show ?thesis by simp
qed

text \<open>
  C2, as stated: the chunks, concatenated, are exactly the sentences, concatenated. It fails
  for the text \<open>" a"\<close>: the only sentence is \<open>" a"\<close>, the only chunk is \<open>"a"\<close>.
\<close>

theorem chunks_concat_counterexample:
  "chunkFileContent (JStr (js '' a'')) None = Inr [js ''a''] \<and> sentences (js '' a'') = [js '' a'']
   \<and> concat [js ''a''] \<noteq> concat [js '' a'']"
  by code_simp

text \<open>
  C2, amended: the list of sentences is cut into consecutive non-empty runs, every sentence
  in exactly one run and in the original order, and the chunks are, in order, the
  concatenations of the runs with the whitespace at their two ends trimmed away.
\<close>

theorem chunks_partition_sentences:
  "\<exists>groups. [] \<notin> set groups \<and> concat groups = sentences text \<and>
     chunkFileContent (JStr text) maxChunkSize = Inr (map (\<lambda>g. trim (concat g)) groups)"
proof -
  obtain groups where gr:
      "chunk_text text (case maxChunkSize of None \<Rightarrow> 500 | Some m \<Rightarrow> m) = map (\<lambda>g. trim (concat g)) groups"
      "concat groups = sentences text"
      "\<forall>g\<in>set groups. bounded_run (case maxChunkSize of None \<Rightarrow> 500 | Some m \<Rightarrow> m) g"
    using chunk_text_groups by blast
  from gr(3) have "[] \<notin> set groups" by (auto simp: bounded_run_def)
  with gr(1,2) show ?thesis by (auto simp: chunkFileContent_string)
qed

theorem chunks_partition_sentences_witness:
  "\<exists>groups. [] \<notin> set groups \<and> concat groups = sentences (js ''a. b'') \<and>
     [js ''a.b''] = map (\<lambda>g. trim (concat g)) groups"
proof -
  have e: "chunkFileContent (JStr (js ''a. b'')) None = Inr [js ''a.b'']" by code_simp
  show ?thesis
    by (rule chunks_partition_sentences[of "js ''a. b''" None, unfolded e sum.inject])
qed

text \<open>
  C3, as stated: every chunk is a contiguous substring of the text. It fails for the text
  \<open>"a. b"\<close>: the separator takes the space, and the only chunk is \<open>"a.b"\<close>.
\<close>

theorem chunk_substring_counterexample:
  "chunkFileContent (JStr (js ''a. b'')) None = Inr [js ''a.b''] \<and> \<not> sublist (js ''a.b'') (js ''a. b'')"
  by code_simp

text \<open>
  C3, amended: every chunk is a contiguous substring of the text from which whitespace
  characters, and nothing else, have been deleted.
\<close>

theorem chunk_squeezed_substring:
  "\<exists>chunks. chunkFileContent (JStr text) maxChunkSize = Inr chunks \<and>
     (\<forall>c\<in>set chunks. \<exists>u. sublist u text \<and> spaces_removed c u)"
proof -
  have "\<exists>u. sublist u text \<and> spaces_removed c u" if c: "c \<in> set (chunk_text text m)" for c m
  proof -
    from chunk_in_group[OF c] obtain g u where g: "c = trim (concat g)"
        "sublist u text" "spaces_removed (concat g) u" by blast
    from spaces_removed_trans[OF spaces_removed_trim g(3)] g(1,2) show ?thesis by blast
  qed
  then show ?thesis by (simp add: chunkFileContent_string)
qed

theorem chunk_squeezed_substring_witness:
  "js ''a.b'' \<in> set [js ''a.b''] \<and> (\<exists>u. sublist u (js ''a. b'') \<and> spaces_removed (js ''a.b'') u)"
proof -
  have e: "chunkFileContent (JStr (js ''a. b'')) None = Inr [js ''a.b'']" by code_simp
  from chunk_squeezed_substring[of "js ''a. b''" None] obtain chunks where
    c: "chunkFileContent (JStr (js ''a. b'')) None = Inr chunks"
       "\<forall>c\<in>set chunks. \<exists>u. sublist u (js ''a. b'') \<and> spaces_removed c u"
    by blast
  from c(1) e have "chunks = [js ''a.b'']" by simp
  with c(2) show ?thesis by simp
qed

text \<open>
  C10: for an absent (\<open>undefined\<close>, \<open>null\<close>) or empty text the result is the empty list;
  for every text, every chunk is non-empty and neither starts nor ends with whitespace.
\<close>

theorem chunks_trimmed:
  "chunkFileContent Undefined maxChunkSize = Inr [] \<and> chunkFileContent JNull maxChunkSize = Inr []
   \<and> chunkFileContent (JStr []) maxChunkSize = Inr []
   \<and> (\<exists>chunks. chunkFileContent (JStr text) maxChunkSize = Inr chunks \<and>
        (\<forall>c\<in>set chunks. c \<noteq> [] \<and> \<not> is_space (hd c) \<and> \<not> is_space (last c)))"
proof -
  have "c \<noteq> [] \<and> \<not> is_space (hd c) \<and> \<not> is_space (last c)"
    if c: "c \<in> set (chunk_text text m)" for c m
  proof -
    from chunk_in_group[OF c] obtain g where g: "g \<noteq> []" "set g \<subseteq> set (sentences text)"
        "c = trim (concat g)" by blast
    from g(1) obtain s where s: "s \<in> set g" by (cases g) auto
    with g(2) have "nonblank s" using sentences_nonblank by blast
    with s have "nonblank (concat g)" by (auto simp: nonblank_def)
    then have "trim (concat g) \<noteq> []" using trim_nonempty_iff[of "concat g"] by simp
    with trim_ends[of "concat g"] g(3) show ?thesis by simp
  qed
  then show ?thesis by (simp add: chunkFileContent_string chunkFileContent_def)
qed

theorem chunks_trimmed_witness:
  "js ''a.b'' \<in> set [js ''a.b''] \<and> js ''a.b'' \<noteq> [] \<and> \<not> is_space (hd (js ''a.b''))
   \<and> \<not> is_space (last (js ''a.b''))"
proof -
  have e: "chunkFileContent (JStr (js ''a. b'')) None = Inr [js ''a.b'']" by code_simp
  from chunks_trimmed[of None "js ''a. b''"] obtain chunks where
    c: "chunkFileContent (JStr (js ''a. b'')) None = Inr chunks"
       "\<forall>c\<in>set chunks. c \<noteq> [] \<and> \<not> is_space (hd c) \<and> \<not> is_space (last c)"
    by blast
  from c(1) e have "chunks = [js ''a.b'']" by simp
  with c(2) show ?thesis by simp
qed

section \<open>The endpoint\<close>

lemma join_concat:
  "join sep xs = concat (map (\<lambda>c. c @ sep) (butlast xs)) @ (if xs = [] then [] else last xs)"
  by (induction sep xs rule: join.induct) simp_all




text \<open>
  C4, as stated: every request with a set API key and non-empty \<open>fileContent\<close> and
  \<open>userQuestion\<close> is chunked and forwarded. It fails for a \<open>fileContent\<close> that is not a
  string: the number 123 passes the guard, \<open>text.split\<close> throws inside the \<open>try\<close>, and the
  handler answers with status 500 without calling the external API.
\<close>

theorem nonstring_content_counterexample:
  "\<not> key_unset (Some (js ''k'')) \<and> truthy (get_prop numeric_body (js ''fileContent''))
   \<and> truthy (get_prop numeric_body (js ''userQuestion''))
   \<and> chat_handler (Some (js ''k'')) numeric_body (gemini_says (js ''{}'') yes_result)
       = (Inr \<lparr>res_status = 500,
              res_body = JObj [(js ''error'', JStr (js ''An error occurred while processing the request.'')),
                               (js ''details'', JStr (js ''text.split is not a function''))]\<rparr>, [])"
  by (simp add: chat_handler_def key_unset_def numeric_body_def chunkFileContent_def server_error_def
      nullish_def js_def)

text \<open>
  C4, amended: for a request with a set API key, a \<open>fileContent\<close> that is a non-empty string
  and a non-empty \<open>userQuestion\<close>, the handler chunks the file content and makes exactly one
  call to the external API: a POST to the model's URL with the key in the header
  \<open>X-goog-api-key\<close>, the question as the text of \<open>contents\<close>, and as the text of
  \<open>systemInstruction\<close> the fixed instructions around the chunks, which stand between
  \<open>FILE CONTENT START\<close> and \<open>FILE CONTENT END\<close> with \<open>"\n---\n"\<close> after every chunk but the
  last. If the call is answered with an ok status and a JSON body, the handler answers
  with status 200 and, as \<open>answer\<close>, the text found in that body or else the fallback.
\<close>

theorem chat_pipeline:
  assumes "\<not> key_unset API_KEY"
    and "get_prop req_body (js ''fileContent'') = JStr content" and "content \<noteq> []"
    and "get_prop req_body (js ''userQuestion'') = userQuestion" and "truthy userQuestion"
  shows "\<exists>chunks key request.
     chunkFileContent (JStr content) None = Inr chunks \<and> API_KEY = Some key
     \<and> snd (chat_handler API_KEY req_body fetch) = [request]
     \<and> request =
         \<lparr>fetch_url = js ''https://generativelanguage.googleapis.com/v1beta/models/gemini-2.5-flash-preview-05-20:generateContent'',
          fetch_method = js ''POST'',
          fetch_headers = [(js ''Content-Type'', js ''application/json''), (js ''X-goog-api-key'', key)],
          fetch_body = JObj
            [(js ''contents'', JArr [JObj [(js ''parts'', JArr [JObj [(js ''text'', userQuestion)]])]]),
             (js ''systemInstruction'', JObj [(js ''parts'', JArr [JObj [(js ''text'',
                JStr (js ''You are a helpful and accurate Q&A system. Your sole task is to answer the user's question ONLY using the provided file content delimited by \"FILE CONTENT START\" and \"FILE CONTENT END\".\<newline>        \<newline>        RULES:\<newline>        1. If the answer is not found in the file content, state clearly that the information is not available in the document. Do NOT use external knowledge.\<newline>        2. Keep the answer concise and factual.\<newline>        \<newline>        FILE CONTENT START\<newline>        ''
                  @ concat (map (\<lambda>c. c @ js ''\<newline>---\<newline>'') (butlast chunks))
                  @ (if chunks = [] then [] else last chunks)
                  @ js ''\<newline>        FILE CONTENT END''))]])]),
             (js ''generationConfig'', JObj [(js ''temperature'', JNum (2 / 10))])]\<rparr>
     \<and> (\<forall>response result.
           fetch request = Inr response \<and> ok response \<and> resp_json response = Inr result
           \<longrightarrow> fst (chat_handler API_KEY req_body fetch)
               = Inr \<lparr>res_status = 200,
                  res_body = JObj [(js ''answer'',
                    if truthy (opt_prop (opt_index0 (opt_prop (opt_prop (opt_index0
                         (opt_prop result (js ''candidates''))) (js ''content'')) (js ''parts'')))
                         (js ''text''))
                    then opt_prop (opt_index0 (opt_prop (opt_prop (opt_index0
                         (opt_prop result (js ''candidates''))) (js ''content'')) (js ''parts'')))
                         (js ''text'')
                    else JStr (js ''Sorry, I could not generate a response from the file content.''))]\<rparr>)"
proof -
  from assms(1) obtain key where k: "API_KEY = Some key" "key \<noteq> []"
    by (auto simp: key_unset_def)
  let ?chunks = "chunk_text content 500"
  let ?request = "gemini_request key userQuestion (systemPrompt (join (js ''\<newline>---\<newline>'') ?chunks))"
  have c: "chunkFileContent (JStr content) None = Inr ?chunks"
    by (simp add: chunkFileContent_string)
  from assms(2) have nn: "\<not> nullish req_body"
    by (cases req_body) (simp_all add: nullish_def)
  have s: "snd (chat_handler API_KEY req_body fetch) = [?request]"
    using k assms(2-5) c nn by (auto simp: chat_handler_def Let_def split: sum.splits)
  have r: "?request =
         \<lparr>fetch_url = js ''https://generativelanguage.googleapis.com/v1beta/models/gemini-2.5-flash-preview-05-20:generateContent'',
          fetch_method = js ''POST'',
          fetch_headers = [(js ''Content-Type'', js ''application/json''), (js ''X-goog-api-key'', key)],
          fetch_body = JObj
            [(js ''contents'', JArr [JObj [(js ''parts'', JArr [JObj [(js ''text'', userQuestion)]])]]),
             (js ''systemInstruction'', JObj [(js ''parts'', JArr [JObj [(js ''text'',
                JStr (js ''You are a helpful and accurate Q&A system. Your sole task is to answer the user's question ONLY using the provided file content delimited by \"FILE CONTENT START\" and \"FILE CONTENT END\".\<newline>        \<newline>        RULES:\<newline>        1. If the answer is not found in the file content, state clearly that the information is not available in the document. Do NOT use external knowledge.\<newline>        2. Keep the answer concise and factual.\<newline>        \<newline>        FILE CONTENT START\<newline>        ''
                  @ concat (map (\<lambda>c. c @ js ''\<newline>---\<newline>'') (butlast ?chunks))
                  @ (if ?chunks = [] then [] else last ?chunks)
                  @ js ''\<newline>        FILE CONTENT END''))]])]),
             (js ''generationConfig'', JObj [(js ''temperature'', JNum (2 / 10))])]\<rparr>"
    unfolding gemini_request_def gemini_payload_def systemPrompt_def apiUrl_def
      join_concat[of "js ''\<newline>---\<newline>''" ?chunks]
    by (simp only: append_assoc)
  have f: "fst (chat_handler API_KEY req_body fetch)
               = Inr \<lparr>res_status = 200,
                  res_body = JObj [(js ''answer'',
                    if truthy (candidate_text result) then candidate_text result
                    else JStr fallback_answer)]\<rparr>"
    if "fetch ?request = Inr response" "ok response" "resp_json response = Inr result"
    for response result
    using k assms(2-5) c nn that
    by (auto simp: chat_handler_def Let_def js_or_def split: sum.splits)
  show ?thesis
    apply (rule exI[of _ ?chunks], rule exI[of _ key], rule exI[of _ ?request])
    apply (intro conjI c k(1) s r)
    using f unfolding candidate_text_def fallback_answer_def by blast
qed

theorem chat_pipeline_witness:
  "\<not> key_unset (Some (js ''k'')) \<and> get_prop example_body (js ''fileContent'') = JStr (js ''a. b'')
   \<and> js ''a. b'' \<noteq> [] \<and> truthy (get_prop example_body (js ''userQuestion''))
   \<and> fst (chat_handler (Some (js ''k'')) example_body (gemini_says (js ''{}'') yes_result))
       = Inr \<lparr>res_status = 200, res_body = JObj [(js ''answer'', JStr (js ''yes''))]\<rparr>"
proof -
  let ?f = "gemini_says (js ''{}'') yes_result"
  let ?resp = "\<lparr>status = 200, statusText = js ''OK'', resp_text = Inr (js ''{}''), resp_json = Inr yes_result\<rparr>"
  let ?t = "opt_prop (opt_index0 (opt_prop (opt_prop (opt_index0
              (opt_prop yes_result (js ''candidates''))) (js ''content'')) (js ''parts''))) (js ''text'')"
  have 1: "\<not> key_unset (Some (js ''k''))" by (simp add: key_unset_def js_def)
  have 2: "get_prop example_body (js ''fileContent'') = JStr (js ''a. b'')"
    by (simp add: example_body_def js_def)
  have 3: "js ''a. b'' \<noteq> []" by (simp add: js_def)
  have 4: "get_prop example_body (js ''userQuestion'') = JStr (js ''q'')"
    by (simp add: example_body_def js_def)
  have 5: "truthy (JStr (js ''q''))" by (simp add: js_def)
  have ct: "?t = JStr (js ''yes'')"
    by (simp add: yes_result_def opt_prop_def opt_index0_def nullish_def js_def)
  have y: "truthy (JStr (js ''yes''))" by (simp add: js_def)
  have o: "ok ?resp" "resp_json ?resp = Inr yes_result" by (simp_all add: ok_def)
  have g: "?f request = Inr ?resp" for request by (simp add: gemini_says_def)
  from chat_pipeline[OF 1 2 3 4 5, of ?f] obtain request where
    c: "\<forall>response result.
           ?f request = Inr response \<and> ok response \<and> resp_json response = Inr result
           \<longrightarrow> fst (chat_handler (Some (js ''k'')) example_body ?f)
               = Inr \<lparr>res_status = 200,
                  res_body = JObj [(js ''answer'',
                    if truthy (opt_prop (opt_index0 (opt_prop (opt_prop (opt_index0
                         (opt_prop result (js ''candidates''))) (js ''content'')) (js ''parts'')))
                         (js ''text''))
                    then opt_prop (opt_index0 (opt_prop (opt_prop (opt_index0
                         (opt_prop result (js ''candidates''))) (js ''content'')) (js ''parts'')))
                         (js ''text'')
                    else JStr (js ''Sorry, I could not generate a response from the file content.''))]\<rparr>"
    by (elim exE conjE)
  from c g[of request] o
  have "fst (chat_handler (Some (js ''k'')) example_body ?f)
      = Inr \<lparr>res_status = 200,
         res_body = JObj [(js ''answer'',
           if truthy ?t then ?t
           else JStr (js ''Sorry, I could not generate a response from the file content.''))]\<rparr>"
    by blast
  then have "fst (chat_handler (Some (js ''k'')) example_body ?f)
      = Inr \<lparr>res_status = 200, res_body = JObj [(js ''answer'', JStr (js ''yes''))]\<rparr>"
    unfolding ct using y by simp
  with 1 2 3 4 5 show ?thesis by simp
qed



section \<open>The chat history\<close>

lemma trim_idem: "trim (trim s) = trim s"
proof (cases "trim s = []")
  case True
  have "trim [] = []" by (simp add: trim_def)
  with True show ?thesis by simp
next
  case False
  with trim_ends[OF False] show ?thesis by (simp add: trim_id)
qed

lemma finish_history:
  "\<exists>answer. chatHistory (handleSendMessage_finish rt r st)
     = chatHistory st @ [\<lparr>role = js ''ai'', msg_text = answer\<rparr>]"
  by (cases "reply_of rt r") (simp_all add: handleSendMessage_finish_def)

lemma begin_history:
  "handleSendMessage_begin st = Some (st', request)
     \<Longrightarrow> chatHistory st' = chatHistory st @ [user_message (trim (userInput st))]
         \<and> trim (userInput st) \<noteq> []"
  by (auto simp: handleSendMessage_begin_def user_message_def Let_def split: if_splits)

lemma step_well_formed:
  assumes "\<forall>m\<in>set (chatHistory st). well_formed_message m"
  shows "\<forall>m\<in>set (chatHistory (step rt st ev)). well_formed_message m"
proof (cases ev)
  case (Mount config_empty init)
  with assms show ?thesis by (cases init) (simp_all add: mount_effect_def)
next
  case (AuthStateChanged user signIn currentUid uuid)
  with assms show ?thesis by (simp add: auth_state_changed_def)
next
  case (FileChange f)
  with assms show ?thesis by (cases f) (simp_all add: handleFileChange_def)
next
  case (ReaderLoad name result)
  then show ?thesis by (simp add: reader_onload_def well_formed_message_def)
next
  case ReaderError
  with assms show ?thesis by (simp add: reader_onerror_def)
next
  case (InputChange v)
  with assms show ?thesis by simp
next
  case Submit
  show ?thesis
  proof (cases "handleSendMessage_begin st")
    case None
    with Submit assms show ?thesis by simp
  next
    case (Some p)
    obtain st' request where p: "p = (st', request)" by (cases p)
    from begin_history[OF Some[unfolded p]] trim_idem[of "userInput st"]
    have "chatHistory st' = chatHistory st @ [user_message (trim (userInput st))]"
      "well_formed_message (user_message (trim (userInput st)))"
      by (simp_all add: well_formed_message_def user_message_def)
    with Submit Some p assms show ?thesis by simp
  qed
next
  case (Settle r)
  from finish_history[of rt r st] obtain answer where
    "chatHistory (handleSendMessage_finish rt r st) = chatHistory st @ [\<lparr>role = js ''ai'', msg_text = answer\<rparr>]"
    by blast
  with Settle assms show ?thesis by (simp add: well_formed_message_def)
qed

lemma foldl_well_formed:
  "\<forall>m\<in>set (chatHistory st). well_formed_message m
     \<Longrightarrow> \<forall>m\<in>set (chatHistory (foldl (step rt) st events)). well_formed_message m"
proof (induction events arbitrary: st)
  case Nil
  then show ?case by simp
next
  case (Cons ev events)
  from Cons.IH[OF step_well_formed[OF Cons.prems]] show ?case by simp
qed

text \<open>
  C5, as stated: every message of the history has the role \<open>user\<close> or \<open>assistant\<close>. It
  fails for the message shown when a file has been read: its role is \<open>ai\<close>.
\<close>

theorem role_assistant_counterexample:
  "chatHistory (reader_onload (js ''a.txt'') (js ''hello'') initial) = [intro_message (js ''a.txt'')]
   \<and> role (intro_message (js ''a.txt'')) \<noteq> js ''user''
   \<and> role (intro_message (js ''a.txt'')) \<noteq> js ''assistant''"
  by (simp add: reader_onload_def intro_message_def js_def)

text \<open>
  C5, amended: every message of the history, after any sequence of events, has the role
  \<open>user\<close> or \<open>ai\<close> and carries a text; the text of a \<open>user\<close> message is the trimmed,
  non-empty question.
\<close>

theorem history_roles:
  "\<forall>m\<in>set (chatHistory (run rt events)).
     (role m = js ''user'' \<and> (\<exists>q. msg_text m = JStr q \<and> q \<noteq> [] \<and> trim q = q)) \<or> role m = js ''ai''"
proof -
  have "\<forall>m\<in>set (chatHistory initial). well_formed_message m" by (simp add: initial_def)
  from foldl_well_formed[OF this, of rt events] show ?thesis
    by (simp add: run_def well_formed_message_def)
qed

theorem history_roles_witness:
  "chatHistory (run example_runtime example_session) = [intro_message (js ''a.txt''), user_message (js ''q'')]
   \<and> role (user_message (js ''q'')) = js ''user''
   \<and> (\<exists>q. msg_text (user_message (js ''q'')) = JStr q \<and> q \<noteq> [] \<and> trim q = q)"
proof -
  have t: "trim (js ''q'') = js ''q''" by (simp add: trim_def js_def is_space_def)
  have h: "chatHistory (run example_runtime example_session)
      = [intro_message (js ''a.txt''), user_message (js ''q'')]"
    using t by (simp add: run_def example_session_def initial_def reader_onload_def
        handleSendMessage_begin_def intro_message_def user_message_def Let_def js_def)
  have r: "role (user_message (js ''q'')) = js ''user''" "role (user_message (js ''q'')) \<noteq> js ''ai''"
    by (simp_all add: user_message_def js_def)
  from history_roles[of example_runtime example_session] h
  have "(role (user_message (js ''q'')) = js ''user''
        \<and> (\<exists>q. msg_text (user_message (js ''q'')) = JStr q \<and> q \<noteq> [] \<and> trim q = q))
      \<or> role (user_message (js ''q'')) = js ''ai''"
    by simp
  with r h show ?thesis by simp
qed

text \<open>
  C6, as stated: every update of the state appends to the history and removes nothing. It
  fails when a second file is chosen: the history, which held the message of the first
  file, becomes empty.
\<close>

theorem history_cleared_counterexample:
  "chatHistory (reader_onload (js ''a.txt'') (js ''hello'') initial) = [intro_message (js ''a.txt'')]
   \<and> chatHistory (handleFileChange (Some (js ''b.txt'')) (reader_onload (js ''a.txt'') (js ''hello'') initial)) = []
   \<and> \<not> prefix [intro_message (js ''a.txt'')] []"
  by (simp add: reader_onload_def handleFileChange_def intro_message_def)

text \<open>
  C6, amended: every event other than choosing a file or the end of reading one leaves the
  history as it was or appends to its end; choosing a file empties the history, and the
  end of reading replaces it by the one message for the file. Within a request the
  question is appended when the form is submitted, and the reply is appended after it
  when the request settles.
\<close>

theorem history_appends:
  "(\<not> resets_history ev \<longrightarrow> prefix (chatHistory st) (chatHistory (step rt st ev)))
   \<and> chatHistory (step rt st (FileChange (Some name))) = []
   \<and> chatHistory (step rt st (ReaderLoad name result)) = [intro_message name]
   \<and> (handleSendMessage_begin st = Some (st', request) \<longrightarrow>
        chatHistory st' = chatHistory st @ [user_message (trim (userInput st))]
        \<and> (\<exists>answer. chatHistory (handleSendMessage_finish rt r st')
              = chatHistory st @ [user_message (trim (userInput st)), \<lparr>role = js ''ai'', msg_text = answer\<rparr>]))"
proof -
  have a: "prefix (chatHistory st) (chatHistory (step rt st ev))" if "\<not> resets_history ev"
  proof (cases ev)
    case (Mount config_empty init)
    then show ?thesis by (cases init) (simp_all add: mount_effect_def)
  next
    case (AuthStateChanged user signIn currentUid uuid)
    then show ?thesis by (simp add: auth_state_changed_def)
  next
    case (FileChange f)
    with that show ?thesis by (cases f) (simp_all add: handleFileChange_def)
  next
    case (ReaderLoad name result)
    with that show ?thesis by simp
  next
    case ReaderError
    then show ?thesis by (simp add: reader_onerror_def)
  next
    case (InputChange v)
    then show ?thesis by simp
  next
    case Submit
    then show ?thesis
      by (cases "handleSendMessage_begin st") (auto dest: begin_history)
  next
    case (Settle r)
    with finish_history[of rt r st] show ?thesis by auto
  qed
  have d: "chatHistory st' = chatHistory st @ [user_message (trim (userInput st))]
        \<and> (\<exists>answer. chatHistory (handleSendMessage_finish rt r st')
              = chatHistory st @ [user_message (trim (userInput st)), \<lparr>role = js ''ai'', msg_text = answer\<rparr>])"
    if b: "handleSendMessage_begin st = Some (st', request)"
    using begin_history[OF b] finish_history[of rt r st'] by auto
  from a d show ?thesis
    by (simp add: handleFileChange_def reader_onload_def intro_message_def)
qed

theorem history_appends_witness:
  "\<not> resets_history Submit
   \<and> handleSendMessage_begin asking
       = Some (asking\<lparr>chatHistory := [user_message (js ''q'')], userInput := [], isLoading := True,
                 error := None\<rparr>, client_request (js ''hello'') (js ''q''))
   \<and> prefix (chatHistory asking) (chatHistory (step example_runtime asking Submit))
   \<and> (\<exists>answer. chatHistory (handleSendMessage_finish example_runtime (Inl (Rejected (js ''offline'')))
          (asking\<lparr>chatHistory := [user_message (js ''q'')], userInput := [], isLoading := True,
                 error := None\<rparr>))
        = [user_message (js ''q''), \<lparr>role = js ''ai'', msg_text = answer\<rparr>])"
proof -
  let ?st = "asking\<lparr>chatHistory := [user_message (js ''q'')], userInput := [], isLoading := True,
                 error := None\<rparr>"
  have t: "trim (js ''q'') = js ''q''" by (simp add: trim_def js_def is_space_def)
  have u: "userInput asking = js ''q''" "chatHistory asking = []" "fileContent asking = js ''hello''"
      "isLoading asking = False"
    by (simp_all add: asking_def initial_def)
  have n: "js ''q'' \<noteq> []" "js ''hello'' \<noteq> []" by (simp_all add: js_def)
  have b: "handleSendMessage_begin asking = Some (?st, client_request (js ''hello'') (js ''q''))"
    using n by (simp add: handleSendMessage_begin_def u t user_message_def Let_def)
  have r: "\<not> resets_history Submit" by simp
  from history_appends[of Submit asking example_runtime _ _ ?st "client_request (js ''hello'') (js ''q'')"
      "Inl (Rejected (js ''offline''))"] b r u t
  show ?thesis by simp
qed

section \<open>The retry loop\<close>



















end
